theory Spec2Isabelle
  imports Main
begin

section \<open>Path steps (path.go)\<close>

text \<open>
  \<^verbatim>\<open>reflect.Type\<close> is used by path.go only through its \<^verbatim>\<open>String()\<close> method
  (directly in \<^verbatim>\<open>pathStep.String\<close>, through \<^verbatim>\<open>%v\<close> in
  \<^verbatim>\<open>typeAssertion.String\<close>), so a type is represented by that string.
  A map key is a \<^verbatim>\<open>reflect.Value\<close> that is only ever printed with \<^verbatim>\<open>%#v\<close>;
  it is represented by that printed form.

  The constructors are the concrete step structs of path.go. \<open>pathStep\<close> on its own is
  the operation-less root step. \<open>structField\<close> carries \<open>name\<close>, \<open>idx\<close> and
  \<open>unexported\<close>; \<open>transform\<close> carries \<open>trans.name\<close>. The remaining fields are
  reflection handles that no function of path.go reads.
\<close>

type_synonym reflect_Type = string

datatype PathStep =
    pathStep reflect_Type
  | sliceIndex reflect_Type int
  | mapIndex reflect_Type string
  | typeAssertion reflect_Type
  | structField reflect_Type string int bool
  | indirect reflect_Type
  | transform reflect_Type string

type_synonym Path = "PathStep list"

datatype panic = SliceBoundsOutOfRange

subsection \<open>push and pop\<close>

text \<open>\<^verbatim>\<open>*pa = append(*pa, s)\<close>\<close>

definition push :: "Path \<Rightarrow> PathStep \<Rightarrow> Path" where
  "push pa s = pa @ [s]"

text \<open>\<^verbatim>\<open>*pa = (*pa)[:len(*pa)-1]\<close>; slicing to \<open>-1\<close> on an empty path panics.\<close>

definition pop :: "Path \<Rightarrow> panic + Path" where
  "pop pa = (if length pa = 0 then Inl SliceBoundsOutOfRange
             else Inr (take (length pa - 1) pa))"

subsection \<open>Rendering of single steps\<close>

text \<open>\<^verbatim>\<open>strings.ContainsAny(s, chars)\<close> for a set of ASCII characters.\<close>

definition ContainsAny :: "string \<Rightarrow> string \<Rightarrow> bool" where
  "ContainsAny s chars = list_ex (\<lambda>c. c \<in> set chars) s"

text \<open>\<^verbatim>\<open>pathStep.String\<close>, on the value of \<^verbatim>\<open>ps.typ.String()\<close>.\<close>

definition pathStep_String :: "reflect_Type \<Rightarrow> string" where
  "pathStep_String s =
     (if s = [] \<or> ContainsAny s [CHR ''{'', CHR ''}'', CHR 0x0A] then ''root''
      else ''{'' @ s @ ''}'')"

text \<open>The verb \<^verbatim>\<open>%d\<close> of \<^verbatim>\<open>fmt.Sprintf\<close>: decimal digits, with a minus sign.\<close>

function fmt_nat :: "nat \<Rightarrow> string" where
  "fmt_nat n = (if n < 10 then [''0123456789'' ! n]
                else fmt_nat (n div 10) @ [''0123456789'' ! (n mod 10)])"
  by pat_completeness auto
termination
  by (relation "measure id") auto

definition fmt_d :: "int \<Rightarrow> string" where
  "fmt_d i = (if i < 0 then ''-'' @ fmt_nat (nat (- i)) else fmt_nat (nat i))"

text \<open>The \<^verbatim>\<open>String\<close> method of each step; the root step uses the embedded
  \<^verbatim>\<open>pathStep.String\<close>.\<close>

fun String :: "PathStep \<Rightarrow> string" where
  "String (pathStep t) = pathStep_String t"
| "String (sliceIndex t key) = ''['' @ fmt_d key @ '']''"
| "String (mapIndex t key) = ''['' @ key @ '']''"
| "String (typeAssertion t) = ''.('' @ t @ '')''"
| "String (structField t name idx unexported) = ''.'' @ name"
| "String (indirect t) = ''*''"
| "String (transform t name) = name @ ''()''"

subsection \<open>Path.String\<close>

fun isStructField :: "PathStep \<Rightarrow> bool" where
  "isStructField (structField t name idx unexported) = True"
| "isStructField _ = False"

text \<open>\<^verbatim>\<open>strings.TrimPrefix\<close>\<close>

definition TrimPrefix :: "string \<Rightarrow> string \<Rightarrow> string" where
  "TrimPrefix s p = (if take (length p) s = p then drop (length p) s else s)"

text \<open>The loop appends \<open>s.String()\<close> for every step that is a \<open>*structField\<close>;
  \<^verbatim>\<open>strings.Join(ss, "")\<close> is \<open>concat\<close>.\<close>

fun Path_String_loop :: "Path \<Rightarrow> string list \<Rightarrow> string list" where
  "Path_String_loop [] ss = ss"
| "Path_String_loop (s # pa) ss =
     (if isStructField s then Path_String_loop pa (ss @ [String s])
      else Path_String_loop pa ss)"

definition Path_String :: "Path \<Rightarrow> string" where
  "Path_String pa = TrimPrefix (concat (Path_String_loop pa [])) ''.''"

subsection \<open>Path.GoString\<close>

record gs_state =
  ssPre :: "string list"
  ssPost :: "string list"
  numIndirect :: int

text \<open>\<^verbatim>\<open>strings.Repeat\<close>; it is only called with a positive count.\<close>

definition Repeat :: "string \<Rightarrow> int \<Rightarrow> string" where
  "Repeat s n = concat (replicate (nat n) s)"

text \<open>The tail of the \<open>*indirect\<close> case, after the inner switch has fixed
  \<open>pPre\<close>, \<open>pPost\<close> and \<open>numIndirect\<close>.\<close>

definition endRun :: "string \<Rightarrow> string \<Rightarrow> int \<Rightarrow> gs_state \<Rightarrow> gs_state" where
  "endRun pPre pPost n st =
     (if n > 0
      then st\<lparr>ssPre := ssPre st @ [pPre @ Repeat ''*'' n],
              ssPost := ssPost st @ [pPost], numIndirect := 0\<rparr>
      else st\<lparr>numIndirect := 0\<rparr>)"

text \<open>One iteration of the loop body, on the step \<open>s\<close> and the looked-ahead
  \<open>nextStep\<close> (\<open>None\<close> for \<open>nil\<close>).\<close>

fun GoString_step :: "PathStep \<Rightarrow> PathStep option \<Rightarrow> gs_state \<Rightarrow> gs_state" where
  "GoString_step (indirect t) (Some (indirect t')) st =
     st\<lparr>numIndirect := numIndirect st + 1\<rparr>"
| "GoString_step (indirect t) (Some (structField t' name idx unexported)) st =
     endRun ''('' '')'' (numIndirect st + 1 - 1) st"
| "GoString_step (indirect t) None st =
     endRun '''' '''' (numIndirect st + 1) st"
| "GoString_step (indirect t) (Some nextStep) st =
     endRun ''('' '')'' (numIndirect st + 1) st"
| "GoString_step (transform t name) nextStep st =
     st\<lparr>ssPre := ssPre st @ [name @ ''(''], ssPost := ssPost st @ ['')'']\<rparr>"
| "GoString_step (typeAssertion t) (Some (transform t' name)) st = st"
| "GoString_step s nextStep st = st\<lparr>ssPost := ssPost st @ [String s]\<rparr>"

text \<open>\<^verbatim>\<open>nextStep = pa[i+1]\<close> when \<open>i+1 < len(pa)\<close>, else \<open>nil\<close>.\<close>

fun lookahead :: "Path \<Rightarrow> PathStep option" where
  "lookahead [] = None"
| "lookahead (s # pa) = Some s"

fun GoString_loop :: "Path \<Rightarrow> gs_state \<Rightarrow> gs_state" where
  "GoString_loop [] st = st"
| "GoString_loop (s # pa) st = GoString_loop pa (GoString_step s (lookahead pa) st)"

text \<open>The reversal of \<open>ssPre\<close> and the two joins that end \<^verbatim>\<open>GoString\<close>.\<close>

definition joinPrePost :: "gs_state \<Rightarrow> string" where
  "joinPrePost st = concat (rev (ssPre st)) @ concat (ssPost st)"

definition gs_init :: gs_state where
  "gs_init = \<lparr>ssPre = [], ssPost = [], numIndirect = 0\<rparr>"

definition GoString :: "Path \<Rightarrow> string" where
  "GoString pa = joinPrePost (GoString_loop pa gs_init)"

text \<open>
  The same loop run over a leading segment of a path only: \<open>nx\<close> is the step that
  follows the segment (\<open>None\<close> when the segment is the whole path). It is used to
  speak about the state of the loop part-way through a path.
\<close>

fun GoString_upto :: "Path \<Rightarrow> PathStep option \<Rightarrow> gs_state \<Rightarrow> gs_state" where
  "GoString_upto [] nx st = st"
| "GoString_upto (s # pa) nx st =
     GoString_upto pa nx (GoString_step s (case pa of [] \<Rightarrow> nx | t # _ \<Rightarrow> Some t) st)"

text \<open>Appending the tokens collected in \<open>r\<close> to those of \<open>st\<close>.\<close>

definition gs_app :: "gs_state \<Rightarrow> gs_state \<Rightarrow> gs_state" where
  "gs_app st r = \<lparr>ssPre = ssPre st @ ssPre r, ssPost = ssPost st @ ssPost r,
                  numIndirect = numIndirect r\<rparr>"

fun isIndirect :: "PathStep \<Rightarrow> bool" where
  "isIndirect (indirect t) = True"
| "isIndirect _ = False"

fun nextIsIndirect :: "PathStep option \<Rightarrow> bool" where
  "nextIsIndirect (Some (indirect t)) = True"
| "nextIsIndirect _ = False"

fun isTransformNext :: "PathStep option \<Rightarrow> bool" where
  "isTransformNext (Some (transform t name)) = True"
| "isTransformNext _ = False"

subsection \<open>isValid\<close>

text \<open>
  A Go string is a sequence of bytes; \<^verbatim>\<open>for j, c := range id\<close> (the argument \<open>id\<close> is \<open>ident\<close> below) walks it by UTF-8
  code point: \<open>j\<close> is the byte offset at which the code point \<open>c\<close> starts, and an
  invalid sequence yields \<open>0xFFFD\<close> and advances by one byte. \<open>DecodeRune\<close> is that
  decoding of the first code point of a non-empty byte sequence, with the number of
  bytes it takes.
\<close>

type_synonym rune = nat

definition RuneError :: rune where
  "RuneError = 0xFFFD"

definition isCont :: "nat \<Rightarrow> bool" where
  "isCont b = (0x80 \<le> b \<and> b \<le> 0xBF)"

fun DecodeRune :: "nat list \<Rightarrow> rune \<times> nat" where
  "DecodeRune [] = (RuneError, 0)"
| "DecodeRune (b0 # bs) =
     (if b0 < 0x80 then (b0, 1)
      else if b0 < 0xC2 then (RuneError, 1)
      else if b0 < 0xE0 then
        (case bs of
           b1 # _ \<Rightarrow>
             if isCont b1 then ((b0 mod 0x20) * 0x40 + b1 mod 0x40, 2) else (RuneError, 1)
         | _ \<Rightarrow> (RuneError, 1))
      else if b0 < 0xF0 then
        (case bs of
           b1 # b2 # _ \<Rightarrow>
             if (if b0 = 0xE0 then 0xA0 else 0x80) \<le> b1
                \<and> b1 \<le> (if b0 = 0xED then 0x9F else 0xBF) \<and> isCont b2
             then ((b0 mod 0x10) * 0x1000 + (b1 mod 0x40) * 0x40 + b2 mod 0x40, 3)
             else (RuneError, 1)
         | _ \<Rightarrow> (RuneError, 1))
      else if b0 < 0xF5 then
        (case bs of
           b1 # b2 # b3 # _ \<Rightarrow>
             if (if b0 = 0xF0 then 0x90 else 0x80) \<le> b1
                \<and> b1 \<le> (if b0 = 0xF4 then 0x8F else 0xBF) \<and> isCont b2 \<and> isCont b3
             then ((b0 mod 0x08) * 0x40000 + (b1 mod 0x40) * 0x1000
                   + (b2 mod 0x40) * 0x40 + b3 mod 0x40, 4)
             else (RuneError, 1)
         | _ \<Rightarrow> (RuneError, 1))
      else (RuneError, 1))"

lemma DecodeRune_size: "bs \<noteq> [] \<Longrightarrow> 0 < snd (DecodeRune bs)"
  by (cases bs) (auto split: list.splits)

text \<open>The pairs \<open>(j, c)\<close> that the range clause produces, from byte offset \<open>j\<close> on.\<close>

function range_from :: "nat \<Rightarrow> nat list \<Rightarrow> (nat \<times> rune) list" where
  "range_from j bs =
     (if bs = [] then []
      else (j, fst (DecodeRune bs))
             # range_from (j + snd (DecodeRune bs)) (drop (snd (DecodeRune bs)) bs))"
  by pat_completeness auto
termination
proof (relation "measure (\<lambda>(j, bs). length bs)")
  show "wf (measure (\<lambda>(j, bs). length bs))"
    by simp
next
  fix j :: nat and bs :: "nat list"
  assume "bs \<noteq> []"
  then show "((j + snd (DecodeRune bs), drop (snd (DecodeRune bs)) bs), (j, bs))
               \<in> measure (\<lambda>(j, bs). length bs)"
    using DecodeRune_size [of bs] by simp
qed

declare range_from.simps [simp del]

definition range_string :: "string \<Rightarrow> (nat \<times> rune) list" where
  "range_string s = range_from 0 (map of_char s)"

text \<open>
  \<^verbatim>\<open>unicode.IsLetter\<close> and \<^verbatim>\<open>unicode.IsDigit\<close> are tables of the Go library;
  they are parameters of the model. The loop updates \<open>ok\<close> twice per code point.
\<close>

fun isValid_loop ::
  "(rune \<Rightarrow> bool) \<Rightarrow> (rune \<Rightarrow> bool) \<Rightarrow> (nat \<times> rune) list \<Rightarrow> bool \<Rightarrow> bool" where
  "isValid_loop IsLetter IsDigit [] ok = ok"
| "isValid_loop IsLetter IsDigit ((j, c) # rs) ok =
     isValid_loop IsLetter IsDigit rs
       ((ok \<and> (j > 0 \<or> \<not> IsDigit c)) \<and> (c = of_char CHR ''_'' \<or> IsLetter c \<or> IsDigit c))"

definition isValid :: "(rune \<Rightarrow> bool) \<Rightarrow> (rune \<Rightarrow> bool) \<Rightarrow> string \<Rightarrow> bool" where
  "isValid IsLetter IsDigit ident =
     isValid_loop IsLetter IsDigit (range_string ident) (ident \<noteq> [] \<and> ident \<noteq> ''_'')"

text \<open>The ASCII part of the two library tables, for evaluating examples.\<close>

definition asciiLetter :: "rune \<Rightarrow> bool" where
  "asciiLetter c = ((65 \<le> c \<and> c \<le> 90) \<or> (97 \<le> c \<and> c \<le> 122))"

definition asciiDigit :: "rune \<Rightarrow> bool" where
  "asciiDigit c = (48 \<le> c \<and> c \<le> 57)"

subsection \<open>The renderings as the specification words them\<close>

text \<open>
  Simplified rendering: the \<open>.Name\<close> tokens of exactly the StructField steps, in
  order.
\<close>

fun fieldTokens :: "Path \<Rightarrow> string list" where
  "fieldTokens [] = []"
| "fieldTokens (structField t name idx unexported # pa) = (''.'' @ name) # fieldTokens pa"
| "fieldTokens (s # pa) = fieldTokens pa"

text \<open>
  Full rendering of a path \<open>before @ run @ after\<close> around a run of Indirect steps,
  read literally: \<open>(\<close>, \<open>count\<close> stars and \<open>)\<close> around the split between prefix
  and postfix, one star fewer before a StructField, no parentheses at the end of the
  path.
\<close>

definition indirectRun_spec :: "Path \<Rightarrow> Path \<Rightarrow> Path \<Rightarrow> string" where
  "indirectRun_spec before run after =
     (let count = int (length run) - (if after \<noteq> [] \<and> isStructField (hd after) then 1 else 0);
          B = GoString_upto before (Some (hd run)) gs_init;
          A = GoString_loop after gs_init
      in if after = []
         then concat (rev (ssPre A)) @ Repeat ''*'' count @ joinPrePost B @ concat (ssPost A)
         else concat (rev (ssPre A)) @ ''('' @ Repeat ''*'' count @ joinPrePost B @ '')''
                @ concat (ssPost A))"

text \<open>
  Full rendering of a path \<open>before @ [transform] @ after\<close>, read literally: the
  transform's \<open>name(\<close> and \<open>)\<close> wrap everything rendered after it.
\<close>

definition transformWraps_spec :: "Path \<Rightarrow> string \<Rightarrow> Path \<Rightarrow> string" where
  "transformWraps_spec before name after =
     joinPrePost (GoString_upto before (Some (transform [] name)) gs_init)
       @ name @ ''('' @ joinPrePost (GoString_loop after gs_init) @ '')''"

section \<open>The comparison engine\<close>

text \<open>
  The files that hold \<^verbatim>\<open>Equal\<close>, \<^verbatim>\<open>Diff\<close>, the options and their resolution
  (compare.go, options.go and the reporter) are not among the sources; only their tests
  are. Everything in this section is therefore modelled from the specification, section
  by section, and says so at each definition.
\<close>

subsection \<open>Values\<close>

text \<open>
  Modelled from the spec: the value categories of the Walker (spec 4.3), absent from
  the sources. A primitive carries its type and its literal; a record its type and its
  fields in declared order, each with its name, whether it is publicly accessible, and
  its value; a reference is the "no value" state or an identity, which a heap resolves;
  an open type holds no value or a concrete one.
\<close>

type_synonym addr = nat

datatype val =
    Prim reflect_Type string
  | Record reflect_Type "(string \<times> bool \<times> val) list"
  | Seq reflect_Type "val list"
  | Assoc reflect_Type "(val \<times> val) list"
  | Ptr reflect_Type "addr option"
  | Iface reflect_Type "val option"

text \<open>
  Modelled from the spec: the type of a value, against which type-scoped rules match
  and which every path step records (spec 3), absent from the sources.
\<close>

fun typeOf :: "val \<Rightarrow> reflect_Type" where
  "typeOf (Prim t l) = t"
| "typeOf (Record t fs) = t"
| "typeOf (Seq t vs) = t"
| "typeOf (Assoc t kvs) = t"
| "typeOf (Ptr t p) = t"
| "typeOf (Iface t v) = t"

subsection \<open>Rules\<close>

text \<open>
  Modelled from the spec: the Rule (Option) of spec 3 and the constructors of spec 6,
  absent from the sources. A function is carried together with a reference number that
  identifies it, so that two rules can be seen to prescribe the same action.
  \<open>UnknownOption\<close> stands for any value that is not one of the recognised variants.
\<close>

type_synonym fref = nat

datatype action =
    Ignore
  | Comparer reflect_Type fref "val \<Rightarrow> val \<Rightarrow> bool"
  | Transformer string reflect_Type fref "val \<Rightarrow> val"

datatype rule =
    Bare action
  | FilterPath "Path \<Rightarrow> bool" rule
  | FilterValues "val \<Rightarrow> val \<Rightarrow> bool" rule
  | RuleSet "rule list"
  | AllowUnexported "reflect_Type list"
  | Unrecognised

datatype error =
    UnexportedField
  | UnfilteredOption
  | AmbiguousOptions
  | UnknownOption
  | NonDeterministic
  | InvalidReference

datatype scope = PathPred "Path \<Rightarrow> bool" | ValuePred "val \<Rightarrow> val \<Rightarrow> bool"

text \<open>
  Modelled from the spec: one comparison call (spec 6 and spec 9), absent from the
  sources: the rules passed to the call, the heap that resolves reference identities,
  and the capabilities the core is given from outside: which types declare their own
  equality operation, which declared types a value's type satisfies, how a value is
  rendered in a report, and at which nodes the symmetry probe of spec 4.3 is made.
  \<open>primEqual\<close> is the value equality of primitives (spec 4.3), the \<open>==\<close> of the
  language on two literals of one type; it is not the identity of literals: a
  floating-point NaN is unequal to itself and the two zeros \<open>-0.0\<close> and \<open>+0.0\<close>
  are equal.
\<close>

record call =
  rules :: "rule list"
  heap :: "(addr \<times> val) list"
  equalMethod :: "reflect_Type \<Rightarrow> (val \<Rightarrow> val \<Rightarrow> bool) option"
  satisfies :: "reflect_Type \<Rightarrow> reflect_Type \<Rightarrow> bool"
  render :: "val \<Rightarrow> string"
  probe :: "Path \<Rightarrow> bool"
  primEqual :: "reflect_Type \<Rightarrow> string \<Rightarrow> string \<Rightarrow> bool"

subsection \<open>Rule Resolver\<close>

text \<open>
  Modelled from the spec: steps 1 and 6 of the resolver (spec 4.2), absent from the
  sources. The rule set is flattened depth-first in declaration order; each flattened
  rule keeps the predicates of the filters around it, outermost first; an unrecognised
  value is an unknown-option error as soon as flattening meets it. An
  \<open>AllowUnexported\<close> contributes to the allowlist and to no flattened rule.
\<close>

fun flatten :: "scope list \<Rightarrow> rule \<Rightarrow> error + (scope list \<times> action) list"
  and flattens :: "scope list \<Rightarrow> rule list \<Rightarrow> error + (scope list \<times> action) list" where
  "flatten sc (Bare a) = Inr [(sc, a)]"
| "flatten sc (FilterPath p r) = flatten (sc @ [PathPred p]) r"
| "flatten sc (FilterValues p r) = flatten (sc @ [ValuePred p]) r"
| "flatten sc (RuleSet rs) = flattens sc rs"
| "flatten sc (AllowUnexported ts) = Inr []"
| "flatten sc Unrecognised = Inl UnknownOption"
| "flattens sc [] = Inr []"
| "flattens sc (r # rs) =
     (case flatten sc r of
        Inl e \<Rightarrow> Inl e
      | Inr fs \<Rightarrow> (case flattens sc rs of Inl e \<Rightarrow> Inl e | Inr gs \<Rightarrow> Inr (fs @ gs)))"

text \<open>
  Modelled from the spec: the encapsulation allowlist (spec 3), absent from the
  sources: the types named by the \<open>allowUnexported\<close> rules of the call.
\<close>

fun allowed :: "rule \<Rightarrow> reflect_Type list"
  and alloweds :: "rule list \<Rightarrow> reflect_Type list" where
  "allowed (AllowUnexported ts) = ts"
| "allowed (RuleSet rs) = alloweds rs"
| "allowed (FilterPath p r) = allowed r"
| "allowed (FilterValues p r) = allowed r"
| "allowed (Bare a) = []"
| "allowed Unrecognised = []"
| "alloweds [] = []"
| "alloweds (r # rs) = allowed r @ alloweds rs"

text \<open>
  Modelled from the spec: evaluation of the predicates of a scoped rule (spec 4.2,
  steps 2 and 7), absent from the sources. A path predicate is asked about the path, a
  value predicate about the pair of values; where the probe is made, a value predicate
  that answers differently on the swapped pair is the fatal
  non-deterministic-or-non-symmetric error. (A function of this model answers the
  same on the same arguments, so only the swapped call can expose it.)
\<close>

fun holds :: "call \<Rightarrow> Path \<Rightarrow> val \<Rightarrow> val \<Rightarrow> scope list \<Rightarrow> error + bool" where
  "holds c pa x y [] = Inr True"
| "holds c pa x y (PathPred p # sc) = (if p pa then holds c pa x y sc else Inr False)"
| "holds c pa x y (ValuePred p # sc) =
     (if probe c pa \<and> p x y \<noteq> p y x then Inl NonDeterministic
      else if p x y then holds c pa x y sc else Inr False)"

text \<open>
  Modelled from the spec: step 3 of the resolver (spec 4.2), absent from the sources.
  The scoped rules are tried in declaration order and the first whose predicate is
  satisfied wins outright.
\<close>

fun firstScoped ::
  "call \<Rightarrow> Path \<Rightarrow> val \<Rightarrow> val \<Rightarrow> (scope list \<times> action) list \<Rightarrow> error + action option" where
  "firstScoped c pa x y [] = Inr None"
| "firstScoped c pa x y (([], a) # fs) = firstScoped c pa x y fs"
| "firstScoped c pa x y ((sc, a) # fs) =
     (case holds c pa x y sc of
        Inl e \<Rightarrow> Inl e
      | Inr True \<Rightarrow> Inr (Some a)
      | Inr False \<Rightarrow> firstScoped c pa x y fs)"

text \<open>
  Modelled from the spec: steps 2, 4 and 5 of the resolver (spec 4.2), absent from the
  sources. A bare rule is universal when it is an \<open>Ignore\<close> or when the declared
  parameter type of its function is the untyped "any" type; it matches a node when its
  declared type is the node's type or the node's type satisfies it; two rules
  prescribe the same action when they are the same variant over the same function.
\<close>

definition anyType :: reflect_Type where
  "anyType = ''interface {}''"

fun universal :: "action \<Rightarrow> bool" where
  "universal Ignore = True"
| "universal (Comparer t r f) = (t = anyType)"
| "universal (Transformer name t r f) = (t = anyType)"

fun matchesType :: "call \<Rightarrow> reflect_Type \<Rightarrow> action \<Rightarrow> bool" where
  "matchesType c t Ignore = True"
| "matchesType c t (Comparer t' r f) = (t' = t \<or> satisfies c t t')"
| "matchesType c t (Transformer name t' r f) = (t' = t \<or> satisfies c t t')"

fun sameAction :: "action \<Rightarrow> action \<Rightarrow> bool" where
  "sameAction Ignore Ignore = True"
| "sameAction (Comparer t r f) (Comparer t' r' f') = (r = r')"
| "sameAction (Transformer name t r f) (Transformer name' t' r' f') = (r = r')"
| "sameAction a b = False"

fun bare :: "(scope list \<times> action) list \<Rightarrow> action list" where
  "bare [] = []"
| "bare (([], a) # fs) = a # bare fs"
| "bare ((sc, a) # fs) = bare fs"

datatype decision = Apply action | Structural

text \<open>
  Modelled from the spec: the resolver as a whole (spec 4.2), absent from the sources.
  Once no scoped rule has matched, a universal bare rule is the unfiltered-option
  error whatever else is present; otherwise zero matching candidates fall through to
  structural recursion, one is applied, and several are applied when they prescribe
  the same action and are the ambiguous-option error when they disagree.
\<close>

definition resolve :: "call \<Rightarrow> Path \<Rightarrow> val \<Rightarrow> val \<Rightarrow> error + decision" where
  "resolve c pa x y =
     (case flattens [] (rules c) of
        Inl e \<Rightarrow> Inl e
      | Inr fs \<Rightarrow>
          (case firstScoped c pa x y fs of
             Inl e \<Rightarrow> Inl e
           | Inr (Some a) \<Rightarrow> Inr (Apply a)
           | Inr None \<Rightarrow>
               if list_ex universal (bare fs) then Inl UnfilteredOption
               else (case filter (matchesType c (typeOf x)) (bare fs) of
                       [] \<Rightarrow> Inr Structural
                     | a # as \<Rightarrow>
                         if list_all (sameAction a) as then Inr (Apply a)
                         else Inl AmbiguousOptions)))"

subsection \<open>Walker\<close>

text \<open>
  Modelled from the spec: the Report Record (spec 3), absent from the sources: the
  path of a leaf, its verdict, and the two rendered values.
\<close>

datatype kind = Equal | Differ | Ignored

type_synonym report = "Path \<times> kind \<times> string \<times> string"

text \<open>
  Modelled from the spec: what the Walker does at one node under structural recursion
  (spec 4.3, step 3), absent from the sources, as the list of things to do in order:
  emit a leaf record (at the node itself, or below the given step), descend along a
  step into a pair of sub-values (entering the given reference pairs into the
  cycle-detection set), or abort.
\<close>

datatype job =
    Emit "PathStep option" kind string string
  | Visit PathStep val val "(addr \<times> addr) list"
  | Abort error

text \<open>
  Modelled from the spec: the record case (spec 4.3), absent from the sources. Fields
  are taken in declared order; a field that is not publicly accessible is a fatal
  error unless the record's type is in the allowlist.
\<close>

fun fieldJobs ::
  "call \<Rightarrow> reflect_Type \<Rightarrow> nat \<Rightarrow> (string \<times> bool \<times> val) list \<Rightarrow> (string \<times> bool \<times> val) list
     \<Rightarrow> job list" where
  "fieldJobs c t i ((name, exported, vx) # fs) ((name', exported', vy) # gs) =
     (if \<not> exported \<and> t \<notin> set (alloweds (rules c)) then Abort UnexportedField
      else Visit (structField (typeOf vx) name (int i) (\<not> exported)) vx vy [])
     # fieldJobs c t (Suc i) fs gs"
| "fieldJobs c t i fs gs = []"

text \<open>
  Modelled from the spec: the ordered-sequence case (spec 4.3), absent from the
  sources. Positions run up to the longer length; a position present on one side only
  is a differ leaf with the other side rendered as non-existent.
\<close>

fun elemJobs :: "call \<Rightarrow> nat \<Rightarrow> val list \<Rightarrow> val list \<Rightarrow> job list" where
  "elemJobs c i (vx # xs) (vy # ys) =
     Visit (sliceIndex (typeOf vx) (int i)) vx vy [] # elemJobs c (Suc i) xs ys"
| "elemJobs c i (vx # xs) [] =
     Emit (Some (sliceIndex (typeOf vx) (int i))) Differ (render c vx) ''non-existent''
       # elemJobs c (Suc i) xs []"
| "elemJobs c i [] (vy # ys) =
     Emit (Some (sliceIndex (typeOf vy) (int i))) Differ ''non-existent'' (render c vy)
       # elemJobs c (Suc i) [] ys"
| "elemJobs c i [] [] = []"

text \<open>
  Modelled from the spec: the associative-container case (spec 4.3), absent from the
  sources. The keys are the union of the keys of both sides; a key present on one side
  only is a differ leaf, a shared key is descended into.
\<close>

fun keyJob :: "call \<Rightarrow> (val \<times> val) list \<Rightarrow> (val \<times> val) list \<Rightarrow> val \<Rightarrow> job" where
  "keyJob c xs ys k =
     (case (map_of xs k, map_of ys k) of
        (Some vx, Some vy) \<Rightarrow> Visit (mapIndex (typeOf vx) (render c k)) vx vy []
      | (Some vx, None) \<Rightarrow>
          Emit (Some (mapIndex (typeOf vx) (render c k))) Differ (render c vx) ''non-existent''
      | (None, Some vy) \<Rightarrow>
          Emit (Some (mapIndex (typeOf vy) (render c k))) Differ ''non-existent'' (render c vy)
      | (None, None) \<Rightarrow> Emit (Some (mapIndex [] (render c k))) Equal [] [])"



text \<open>
  Modelled from the spec: structural recursion by category (spec 4.3, step 3), absent
  from the sources. \<open>vis\<close> is the cycle-detection set of the current path. Two values
  of different type or shape, which the spec leaves open, are a differ leaf
  (\<open>mismatch\<close>), as two different concrete types in an open type are, and as a
  reference or open type with a value on one side only is.
\<close>

definition mismatch :: "call \<Rightarrow> val \<Rightarrow> val \<Rightarrow> job list" where
  "mismatch c x y = [Emit None Differ (render c x) (render c y)]"

definition structural :: "call \<Rightarrow> (addr \<times> addr) list \<Rightarrow> val \<Rightarrow> val \<Rightarrow> job list" where
  "structural c vis x y =
     (if typeOf x \<noteq> typeOf y then mismatch c x y
      else
       (case x of
          Record t fs \<Rightarrow>
            (case y of
               Record t' gs \<Rightarrow>
                 if map fst fs = map fst gs then fieldJobs c t 0 fs gs else mismatch c x y
             | _ \<Rightarrow> mismatch c x y)
        | Seq t xs \<Rightarrow>
            (case y of Seq t' ys \<Rightarrow> elemJobs c 0 xs ys | _ \<Rightarrow> mismatch c x y)
        | Assoc t xs \<Rightarrow>
            (case y of
               Assoc t' ys \<Rightarrow> map (keyJob c xs ys) (remdups (map fst xs @ map fst ys))
             | _ \<Rightarrow> mismatch c x y)
        | Ptr t p \<Rightarrow>
            (case y of
               Ptr t' q \<Rightarrow>
                 (case (p, q) of
                    (None, None) \<Rightarrow> [Emit None Equal (render c x) (render c y)]
                  | (Some a, Some b) \<Rightarrow>
                      if (a, b) \<in> set vis then [Emit None Equal (render c x) (render c y)]
                      else (case (map_of (heap c) a, map_of (heap c) b) of
                              (Some vx, Some vy) \<Rightarrow> [Visit (indirect (typeOf vx)) vx vy [(a, b)]]
                            | _ \<Rightarrow> [Abort InvalidReference])
                  | _ \<Rightarrow> mismatch c x y)
             | _ \<Rightarrow> mismatch c x y)
        | Iface t p \<Rightarrow>
            (case y of
               Iface t' q \<Rightarrow>
                 (case (p, q) of
                    (None, None) \<Rightarrow> [Emit None Equal (render c x) (render c y)]
                  | (Some vx, Some vy) \<Rightarrow>
                      if typeOf vx = typeOf vy then [Visit (typeAssertion (typeOf vx)) vx vy []]
                      else mismatch c x y
                  | _ \<Rightarrow> mismatch c x y)
             | _ \<Rightarrow> mismatch c x y)
        | Prim t a \<Rightarrow>
            (case y of
               Prim t' b \<Rightarrow>
                 [Emit None (if primEqual c t a b then Equal else Differ) (render c x)
                    (render c y)]
             | _ \<Rightarrow> mismatch c x y)))"

text \<open>
  Modelled from the spec: a terminal comparison by a function (spec 4.3, step 1),
  absent from the sources. Where the probe is made, a function that answers
  differently on the swapped arguments aborts the call.
\<close>

definition compareWith ::
  "call \<Rightarrow> Path \<Rightarrow> (val \<Rightarrow> val \<Rightarrow> bool) \<Rightarrow> val \<Rightarrow> val \<Rightarrow> error + report list" where
  "compareWith c pa f x y =
     (if probe c pa \<and> f x y \<noteq> f y x then Inl NonDeterministic
      else Inr [(pa, if f x y then Equal else Differ, render c x, render c y)])"

text \<open>
  Modelled from the spec: the order of the traversal (spec 4.3 and 5), absent from the
  sources: the jobs of a node run one after the other, and the first that aborts or
  does not return ends the call; no record is emitted after it.
\<close>

fun collect :: "(error + report list) option list \<Rightarrow> (error + report list) option" where
  "collect [] = Some (Inr [])"
| "collect (None # rs) = None"
| "collect (Some (Inl e) # rs) = Some (Inl e)"
| "collect (Some (Inr a) # rs) =
     (case collect rs of
        None \<Rightarrow> None
      | Some (Inl e) \<Rightarrow> Some (Inl e)
      | Some (Inr b) \<Rightarrow> Some (Inr (a @ b)))"

text \<open>
  Modelled from the spec: the recursive procedure of the Walker (spec 4.3), absent
  from the sources. The first argument bounds the depth of the recursion: \<open>None\<close> is
  a walk that has not returned within it. A step is pushed for the descent only; the
  caller's path is unchanged on return, which is the pop.
\<close>

fun walk ::
  "nat \<Rightarrow> call \<Rightarrow> (addr \<times> addr) list \<Rightarrow> Path \<Rightarrow> val \<Rightarrow> val \<Rightarrow> (error + report list) option"
  where
  "walk 0 c vis pa x y = None"
| "walk (Suc n) c vis pa x y =
     (case resolve c pa x y of
        Inl e \<Rightarrow> Some (Inl e)
      | Inr (Apply Ignore) \<Rightarrow> Some (Inr [(pa, Ignored, render c x, render c y)])
      | Inr (Apply (Comparer t r f)) \<Rightarrow> Some (compareWith c pa f x y)
      | Inr (Apply (Transformer name t r f)) \<Rightarrow>
          walk n c vis (push pa (transform (typeOf (f x)) name)) (f x) (f y)
      | Inr Structural \<Rightarrow>
          (case equalMethod c (typeOf x) of
             Some f \<Rightarrow> Some (compareWith c pa f x y)
           | None \<Rightarrow>
               collect (map (\<lambda>j. case j of
                                 Emit None k old new \<Rightarrow> Some (Inr [(pa, k, old, new)])
                               | Emit (Some s) k old new \<Rightarrow> Some (Inr [(push pa s, k, old, new)])
                               | Visit s vx vy ps \<Rightarrow> walk n c (ps @ vis) (push pa s) vx vy
                               | Abort e \<Rightarrow> Some (Inl e))
                          (structural c vis x y))))"

subsection \<open>Public operations and the Diff Reporter\<close>

text \<open>
  Modelled from the spec: \<open>equal\<close> (spec 6), absent from the sources: true when the
  traversal completes with no differ leaf record; a fatal error is propagated. The
  path starts as the root step carrying the root's type.
\<close>

fun isDiffer :: "report \<Rightarrow> bool" where
  "isDiffer (pa, k, old, new) = (k = Differ)"

definition traverse :: "nat \<Rightarrow> call \<Rightarrow> val \<Rightarrow> val \<Rightarrow> (error + report list) option" where
  "traverse n c x y = walk n c [] [pathStep (typeOf x)] x y"

definition equal :: "nat \<Rightarrow> call \<Rightarrow> val \<Rightarrow> val \<Rightarrow> (error + bool) option" where
  "equal n c x y =
     (case traverse n c x y of
        None \<Rightarrow> None
      | Some (Inl e) \<Rightarrow> Some (Inl e)
      | Some (Inr rs) \<Rightarrow> Some (Inr (\<not> list_ex isDiffer rs)))"

text \<open>
  Modelled from the spec: the Diff Reporter and \<open>diff\<close> (spec 4.4 and 6), absent from
  the sources. Each differ record is a block: the full rendering of its path on one
  line, then the old and the new rendering, each on an indented line of its own; equal
  and ignored leaves produce no output.
\<close>

fun block :: "report \<Rightarrow> string" where
  "block (pa, k, old, new) =
     (if k = Differ
      then GoString pa @ '':'' @ [CHR 0x0A] @ [CHR 0x09] @ ''-: '' @ old @ [CHR 0x0A]
             @ [CHR 0x09] @ ''+: '' @ new @ [CHR 0x0A]
      else [])"

definition diff :: "nat \<Rightarrow> call \<Rightarrow> val \<Rightarrow> val \<Rightarrow> (error + string) option" where
  "diff n c x y =
     (case traverse n c x y of
        None \<Rightarrow> None
      | Some (Inl e) \<Rightarrow> Some (Inl e)
      | Some (Inr rs) \<Rightarrow> Some (Inr (concat (map block rs))))"

subsection \<open>A value compared with itself\<close>

text \<open>The values directly inside a value, into which the Walker descends.\<close>

fun parts :: "val \<Rightarrow> val list" where
  "parts (Record t fs) = map (\<lambda>f. snd (snd f)) fs"
| "parts (Seq t vs) = vs"
| "parts (Assoc t kvs) = map snd kvs"
| "parts (Iface t (Some v)) = [v]"
| "parts v = []"



text \<open>
  The values the Walker descends into from a value that it compares with itself under
  structural recursion: none when the value's type declares its own equality
  operation (the comparison is terminal), what the heap holds for a reference, the
  values found under the keys of an associative container, and the values directly
  inside otherwise.
\<close>

definition children :: "call \<Rightarrow> val \<Rightarrow> val list" where
  "children c v =
     (case equalMethod c (typeOf v) of
        Some f \<Rightarrow> []
      | None \<Rightarrow>
          (case v of
             Ptr t p \<Rightarrow>
               (case p of
                  None \<Rightarrow> []
                | Some a \<Rightarrow> (case map_of (heap c) a of Some u \<Rightarrow> [u] | None \<Rightarrow> []))
           | Assoc t kvs \<Rightarrow> List.map_filter (map_of kvs) (map fst kvs)
           | _ \<Rightarrow> parts v))"

text \<open>The nodes that such a walk can reach from \<open>v\<close>.\<close>

inductive reach :: "call \<Rightarrow> val \<Rightarrow> val \<Rightarrow> bool" for c :: call and v :: val where
  root: "reach c v v"
| child: "reach c v w \<Longrightarrow> u \<in> set (children c w) \<Longrightarrow> reach c v u"

text \<open>
  The same, without following a reference whose identity is in \<open>A\<close>: the nodes
  still to be seen below a node when the cycle-detection set holds the identities
  \<open>A\<close>.
\<close>

definition childrenAvoiding :: "call \<Rightarrow> addr set \<Rightarrow> val \<Rightarrow> val list" where
  "childrenAvoiding c A v =
     (case v of
        Ptr t p \<Rightarrow> (case p of None \<Rightarrow> [] | Some a \<Rightarrow> if a \<in> A then [] else children c v)
      | _ \<Rightarrow> children c v)"

inductive reachAvoiding :: "call \<Rightarrow> addr set \<Rightarrow> val \<Rightarrow> val \<Rightarrow> bool"
  for c :: call and A :: "addr set" and v :: val where
  root: "reachAvoiding c A v v"
| child: "reachAvoiding c A v w \<Longrightarrow> u \<in> set (childrenAvoiding c A w) \<Longrightarrow> reachAvoiding c A v u"






subsection \<open>A call for examples\<close>

text \<open>
  A call with no rules and an empty heap, in which no type declares an equality
  operation or satisfies another, a primitive is rendered as its literal, the
  symmetry probe is made at every node, and two primitives are equal when their
  literals are the same and are not the NaN of a floating-point type.
\<close>

definition plainCall :: call where
  "plainCall =
     \<lparr>rules = [], heap = [], equalMethod = (\<lambda>t. None), satisfies = (\<lambda>t t'. False),
      render = (\<lambda>v. case v of Prim t l \<Rightarrow> l | _ \<Rightarrow> ''...''), probe = (\<lambda>pa. True),
      primEqual = (\<lambda>t a b. a = b \<and> \<not> (a = ''NaN'' \<and> (t = ''float64'' \<or> t = ''float32'')))\<rparr>"




text \<open>The record \<open>{A: 1, B: 2, C: c}\<close> of the scenario of spec 8.\<close>

definition recordABC :: "string \<Rightarrow> val" where
  "recordABC c =
     Record ''struct { A int; B int; C int }''
       [(''A'', True, Prim ''int'' ''1''), (''B'', True, Prim ''int'' ''2''),
        (''C'', True, Prim ''int'' c)]"

section \<open>Properties of the path renderings\<close>

subsection \<open>The loop of GoString, segment by segment\<close>


lemma GoString_loop_upto: "GoString_loop pa st = GoString_upto pa None st"
proof (induction pa arbitrary: st)
  case Nil
  show ?case by simp
next
  case (Cons s pa)
  have "lookahead pa = (case pa of [] \<Rightarrow> None | t # _ \<Rightarrow> Some t)"
    by (cases pa) simp_all
  with Cons.IH show ?case by simp
qed

lemma GoString_upto_append:
  "GoString_upto (xs @ ys) nx st =
     GoString_upto ys nx (GoString_upto xs (case ys of [] \<Rightarrow> nx | t # _ \<Rightarrow> Some t) st)"
proof (induction xs arbitrary: st)
  case Nil
  show ?case by simp
next
  case (Cons s xs)
  have "(case xs @ ys of [] \<Rightarrow> nx | t # _ \<Rightarrow> Some t)
        = (case xs of [] \<Rightarrow> (case ys of [] \<Rightarrow> nx | t # _ \<Rightarrow> Some t) | t # _ \<Rightarrow> Some t)"
    by (cases xs) simp_all
  with Cons.IH show ?case by simp
qed


lemma GoString_step_frame:
  "GoString_step s nx st =
     gs_app st (GoString_step s nx \<lparr>ssPre = [], ssPost = [], numIndirect = numIndirect st\<rparr>)"
  by (cases "(s, nx, st)" rule: GoString_step.cases) (simp_all add: endRun_def gs_app_def)

lemma gs_app_assoc: "gs_app (gs_app a b) c = gs_app a (gs_app b c)"
  by (simp add: gs_app_def)

lemma numIndirect_gs_app: "numIndirect (gs_app a b) = numIndirect b"
  by (simp add: gs_app_def)

lemma GoString_upto_frame:
  "GoString_upto xs nx st =
     gs_app st (GoString_upto xs nx \<lparr>ssPre = [], ssPost = [], numIndirect = numIndirect st\<rparr>)"
proof (induction xs arbitrary: st)
  case Nil
  show ?case by (simp add: gs_app_def)
next
  case (Cons s xs)
  let ?nx = "case xs of [] \<Rightarrow> nx | t # _ \<Rightarrow> Some t"
  let ?e = "\<lparr>ssPre = [], ssPost = [], numIndirect = numIndirect st\<rparr>"
  let ?r = "GoString_step s ?nx ?e"
  let ?e' = "\<lparr>ssPre = [], ssPost = [], numIndirect = numIndirect ?r\<rparr>"
  have st: "GoString_step s ?nx st = gs_app st ?r"
    by (rule GoString_step_frame)
  have "GoString_upto (s # xs) nx st = GoString_upto xs nx (gs_app st ?r)"
    by (simp add: st [symmetric])
  also have "\<dots> = gs_app (gs_app st ?r) (GoString_upto xs nx ?e')"
    using Cons.IH [of "gs_app st ?r"] by (simp add: numIndirect_gs_app)
  also have "\<dots> = gs_app st (gs_app ?r (GoString_upto xs nx ?e'))"
    by (rule gs_app_assoc)
  also have "gs_app ?r (GoString_upto xs nx ?e') = GoString_upto xs nx ?r"
    using Cons.IH [of ?r] by simp
  also have "GoString_upto xs nx ?r = GoString_upto (s # xs) nx ?e"
    by simp
  finally show ?case .
qed

lemma joinPrePost_gs_app:
  "joinPrePost (gs_app st r) =
     concat (rev (ssPre r)) @ joinPrePost st @ concat (ssPost r)"
  by (simp add: joinPrePost_def gs_app_def)

text \<open>The counter is zero again whenever the step that follows is not an Indirect.\<close>


lemma GoString_step_counter:
  "numIndirect (GoString_step s nx st) =
     (if isIndirect s then (if nextIsIndirect nx then numIndirect st + 1 else 0)
      else numIndirect st)"
  by (cases "(s, nx, st)" rule: GoString_step.cases) (simp_all add: endRun_def)

lemma GoString_upto_counter:
  "\<not> nextIsIndirect nx \<Longrightarrow> numIndirect st = 0 \<or> (xs \<noteq> [] \<and> isIndirect (hd xs))
     \<Longrightarrow> numIndirect (GoString_upto xs nx st) = 0"
proof (induction xs arbitrary: st)
  case Nil
  then show ?case by simp
next
  case (Cons s xs)
  let ?nx = "case xs of [] \<Rightarrow> nx | t # _ \<Rightarrow> Some t"
  have "numIndirect (GoString_step s ?nx st) = 0 \<or> (xs \<noteq> [] \<and> isIndirect (hd xs))"
  proof (cases xs)
    case Nil
    with Cons.prems show ?thesis by (auto simp: GoString_step_counter)
  next
    case (Cons t ts)
    show ?thesis
    proof (cases "isIndirect t")
      case True
      with Cons show ?thesis by simp
    next
      case False
      then have "\<not> nextIsIndirect (Some t)" by (cases t) simp_all
      with Cons Cons.prems \<open>numIndirect st = 0 \<or> (s # xs \<noteq> [] \<and> isIndirect (hd (s # xs)))\<close>
      show ?thesis by (auto simp: GoString_step_counter)
    qed
  qed
  from Cons.IH [OF Cons.prems(1) this] show ?case by simp
qed


lemma GoString_upto_run:
  assumes "run \<noteq> []" and "list_all isIndirect run" and "\<not> nextIsIndirect nx"
  shows "GoString_upto run nx st =
     endRun (if nx = None then '''' else ''('') (if nx = None then '''' else '')'')
       (numIndirect st + int (length run)
          - (case nx of Some (structField t name idx unexported) \<Rightarrow> 1 | _ \<Rightarrow> 0)) st"
  using assms
proof (induction run arbitrary: st)
  case Nil
  then show ?case by simp
next
  case (Cons s run)
  from Cons.prems obtain t where s: "s = indirect t" by (cases s) simp_all
  show ?case
  proof (cases run)
    case Nil
    show ?thesis
    proof (cases nx)
      case None
      then show ?thesis by (simp add: Nil s)
    next
      case (Some n)
      with Cons.prems(3) show ?thesis
        by (cases n) (simp_all add: Nil s)
    qed
  next
    case (Cons s' run')
    with Cons.prems obtain t' where s': "s' = indirect t'" by (cases s') simp_all
    have "GoString_upto (s # run) nx st
            = GoString_upto run nx (st\<lparr>numIndirect := numIndirect st + 1\<rparr>)"
      by (simp add: Cons s s')
    also have "\<dots> = endRun (if nx = None then '''' else ''('') (if nx = None then '''' else '')'')
       (numIndirect (st\<lparr>numIndirect := numIndirect st + 1\<rparr>) + int (length run)
          - (case nx of Some (structField t name idx unexported) \<Rightarrow> 1 | _ \<Rightarrow> 0))
       (st\<lparr>numIndirect := numIndirect st + 1\<rparr>)"
      using Cons.prems Cons by (intro Cons.IH) simp_all
    also have "\<dots> = endRun (if nx = None then '''' else ''('') (if nx = None then '''' else '')'')
       (numIndirect st + int (length (s # run))
          - (case nx of Some (structField t name idx unexported) \<Rightarrow> 1 | _ \<Rightarrow> 0)) st"
      by (simp add: endRun_def add.commute add.left_commute)
    finally show ?thesis .
  qed
qed


lemma GoString_split:
  assumes "numIndirect X = 0"
  shows "joinPrePost (GoString_upto after None X) =
           concat (rev (ssPre (GoString_loop after gs_init))) @ joinPrePost X
             @ concat (ssPost (GoString_loop after gs_init))"
proof -
  have "GoString_upto after None X
          = gs_app X (GoString_upto after None \<lparr>ssPre = [], ssPost = [], numIndirect = numIndirect X\<rparr>)"
    by (rule GoString_upto_frame)
  also have "\<lparr>ssPre = [], ssPost = [], numIndirect = numIndirect X\<rparr> = gs_init"
    using assms by (simp add: gs_init_def)
  finally show ?thesis
    by (simp add: joinPrePost_gs_app GoString_loop_upto)
qed

lemma not_nextIsIndirect: "after = [] \<or> \<not> isIndirect (hd after) \<Longrightarrow> \<not> nextIsIndirect (lookahead after)"
proof (cases after)
  case Nil
  then show ?thesis by simp
next
  case (Cons a as)
  assume "after = [] \<or> \<not> isIndirect (hd after)"
  with Cons have "\<not> isIndirect a" by simp
  then show ?thesis by (cases a) (simp_all add: Cons)
qed

lemma structField_case:
  "(case lookahead after of Some (structField t name idx unexported) \<Rightarrow> (1::int) | _ \<Rightarrow> 0)
     = (if after \<noteq> [] \<and> isStructField (hd after) then 1 else 0)"
proof (cases after)
  case Nil
  then show ?thesis by simp
next
  case (Cons a as)
  then show ?thesis by (cases a) simp_all
qed

lemma lookahead_case: "(case after of [] \<Rightarrow> None | t # _ \<Rightarrow> Some t) = lookahead after"
  by (cases after) simp_all

lemma lookahead_append: "xs \<noteq> [] \<Longrightarrow> lookahead (xs @ ys) = Some (hd xs)"
  by (cases xs) simp_all

lemma numIndirect_init_upto:
  "\<not> nextIsIndirect nx \<Longrightarrow> numIndirect (GoString_upto xs nx gs_init) = 0"
  by (rule GoString_upto_counter) (simp_all add: gs_init_def)

subsection \<open>Runs of Indirect steps\<close>

text \<open>
  Claim C5, as the code has it. Let \<open>run\<close> be a maximal run of Indirect steps in the
  path \<open>before @ run @ after\<close>, and let \<open>count\<close> be its length, less one when the
  step after the run is a StructField. When \<open>count\<close> is positive, \<open>GoString\<close> puts
  \<open>(\<close> followed by \<open>count\<close> stars in front of the rendering of \<open>before\<close> and
  \<open>)\<close> behind it, and leaves both parentheses out when the run ends the path. When
  \<open>count\<close> is zero (a single Indirect in front of a StructField), the run renders as
  nothing at all: the guard \<^verbatim>\<open>if numIndirect > 0\<close> skips both tokens.
\<close>

theorem GoString_indirect_run:
  assumes run: "run \<noteq> []" and ind: "list_all isIndirect run"
    and before: "before = [] \<or> \<not> isIndirect (last before)"
    and after: "after = [] \<or> \<not> isIndirect (hd after)"
  shows "GoString (before @ run @ after) =
     (let count = int (length run) - (if after \<noteq> [] \<and> isStructField (hd after) then 1 else 0);
          pPre = (if after = [] then '''' else ''('');
          pPost = (if after = [] then '''' else '')'');
          B = GoString_upto before (Some (hd run)) gs_init;
          A = GoString_loop after gs_init
      in if count > 0
         then concat (rev (ssPre A)) @ pPre @ Repeat ''*'' count @ joinPrePost B @ pPost
                @ concat (ssPost A)
         else concat (rev (ssPre A)) @ joinPrePost B @ concat (ssPost A))"
proof -
  let ?B = "GoString_upto before (Some (hd run)) gs_init"
  let ?nx = "lookahead after"
  let ?count = "int (length run) - (if after \<noteq> [] \<and> isStructField (hd after) then 1 else 0)"
  let ?pPre = "if after = [] then '''' else ''(''"
  let ?pPost = "if after = [] then '''' else '')''"
  have nB: "numIndirect ?B = 0"
  proof (cases "before = []")
    case True
    then show ?thesis by (simp add: gs_init_def)
  next
    case False
    with before have nl: "\<not> isIndirect (last before)" by simp
    from False have bl: "before = butlast before @ [last before]" by simp
    have "?B = GoString_step (last before) (Some (hd run))
                 (GoString_upto (butlast before) (Some (last before)) gs_init)"
      by (subst bl, subst GoString_upto_append) simp
    moreover have "\<not> nextIsIndirect (Some (last before))"
      using nl by (cases "last before") simp_all
    ultimately show ?thesis
      using nl by (simp add: GoString_step_counter numIndirect_init_upto)
  qed
  have nnx: "\<not> nextIsIndirect ?nx"
    using after by (rule not_nextIsIndirect)
  have none: "(?nx = None) = (after = [])"
    by (cases after) simp_all
  have "GoString_upto (before @ run @ after) None gs_init
          = GoString_upto after None (GoString_upto run ?nx ?B)"
    using run by (simp add: GoString_upto_append lookahead_case lookahead_append)
  also have "GoString_upto run ?nx ?B = endRun ?pPre ?pPost ?count ?B"
    using GoString_upto_run [OF run ind nnx, of ?B]
    by (simp only: nB structField_case none) simp
  finally have eq: "GoString (before @ run @ after)
      = joinPrePost (GoString_upto after None (endRun ?pPre ?pPost ?count ?B))"
    by (simp add: GoString_def GoString_loop_upto)
  have "numIndirect (endRun ?pPre ?pPost ?count ?B) = 0"
    by (simp add: endRun_def)
  from GoString_split [OF this]
  have "GoString (before @ run @ after) =
          concat (rev (ssPre (GoString_loop after gs_init)))
            @ joinPrePost (endRun ?pPre ?pPost ?count ?B)
            @ concat (ssPost (GoString_loop after gs_init))"
    by (simp only: eq)
  moreover have "joinPrePost (endRun ?pPre ?pPost ?count ?B) =
     (if ?count > 0 then ?pPre @ Repeat ''*'' ?count @ joinPrePost ?B @ ?pPost else joinPrePost ?B)"
    by (simp add: endRun_def joinPrePost_def)
  ultimately show ?thesis
    by (simp only: Let_def) (simp only: if_distrib [of "\<lambda>x. _ @ x"] if_distrib [of "\<lambda>x. x @ _"] append_assoc split: if_splits)
qed

text \<open>The theorem at the path \<^verbatim>\<open>{**int}\<close>, two Indirect steps, index 3.\<close>

theorem GoString_indirect_run_witness:
  "[indirect ''*int'', indirect ''int''] \<noteq> []
   \<and> list_all isIndirect [indirect ''*int'', indirect ''int'']
   \<and> ([pathStep ''**int''] = [] \<or> \<not> isIndirect (last [pathStep ''**int'']))
   \<and> ([sliceIndex ''byte'' 3] = [] \<or> \<not> isIndirect (hd [sliceIndex ''byte'' 3]))
   \<and> GoString ([pathStep ''**int''] @ [indirect ''*int'', indirect ''int''] @ [sliceIndex ''byte'' 3])
       = ''(**{**int})[3]''"
proof -
  have h: "[indirect ''*int'', indirect ''int''] \<noteq> []"
    "list_all isIndirect [indirect ''*int'', indirect ''int'']"
    "[pathStep ''**int''] = [] \<or> \<not> isIndirect (last [pathStep ''**int''])"
    "[sliceIndex ''byte'' 3] = [] \<or> \<not> isIndirect (hd [sliceIndex ''byte'' 3])"
    by simp_all
  show ?thesis
    using h GoString_indirect_run [OF h]
    by (simp add: gs_init_def joinPrePost_def Repeat_def pathStep_String_def ContainsAny_def
          fmt_d_def eval_nat_numeral)
qed

text \<open>
  Claim C5 read literally gives \<^verbatim>\<open>({T}).A\<close> for a root, one Indirect and the field
  \<open>A\<close>: parentheses around zero stars. The code renders \<^verbatim>\<open>{T}.A\<close>.
\<close>

theorem GoString_indirect_run_counterexample:
  "GoString ([pathStep ''T''] @ [indirect ''S''] @ [structField ''int'' ''A'' 0 False])
     \<noteq> indirectRun_spec [pathStep ''T''] [indirect ''S''] [structField ''int'' ''A'' 0 False]"
  by (simp add: GoString_def indirectRun_spec_def gs_init_def joinPrePost_def Repeat_def
        endRun_def pathStep_String_def ContainsAny_def)

subsection \<open>Transform and TypeAssertion steps\<close>

text \<open>
  Claim C6, as the code has it. A Transform step appends \<open>name(\<close> to the prefix
  list and \<open>)\<close> to the postfix list. In the rendered path \<open>name(\<close> and \<open>)\<close>
  therefore enclose the rendering of the steps before the transform; what the steps
  after it add lies outside the call, their prefix tokens in front of \<open>name(\<close> and
  their postfix tokens behind \<open>)\<close>. A TypeAssertion step adds nothing when the next
  step is a Transform and the postfix token \<open>.(Type)\<close> otherwise.
\<close>

theorem GoString_transform_typeAssertion:
  "GoString_step (transform t name) nx st
     = st\<lparr>ssPre := ssPre st @ [name @ ''(''], ssPost := ssPost st @ ['')'']\<rparr>
   \<and> GoString (before @ transform t name # after)
     = concat (rev (ssPre (GoString_loop after gs_init))) @ name @ ''(''
         @ joinPrePost (GoString_upto before (Some (transform t name)) gs_init) @ '')''
         @ concat (ssPost (GoString_loop after gs_init))
   \<and> GoString_step (typeAssertion ty) nx st
     = (if isTransformNext nx then st else st\<lparr>ssPost := ssPost st @ [''.('' @ ty @ '')'']\<rparr>)
   \<and> GoString (before @ typeAssertion ty # after)
     = concat (rev (ssPre (GoString_loop after gs_init)))
         @ joinPrePost (GoString_upto before (Some (typeAssertion ty)) gs_init)
         @ (if isTransformNext (lookahead after) then [] else ''.('' @ ty @ '')'')
         @ concat (ssPost (GoString_loop after gs_init))"
proof (intro conjI)
  show "GoString_step (transform t name) nx st
     = st\<lparr>ssPre := ssPre st @ [name @ ''(''], ssPost := ssPost st @ ['')'']\<rparr>"
    by simp
next
  show ta: "GoString_step (typeAssertion ty) nx st
     = (if isTransformNext nx then st else st\<lparr>ssPost := ssPost st @ [''.('' @ ty @ '')'']\<rparr>)"
    by (cases "(typeAssertion ty, nx, st)" rule: GoString_step.cases) simp_all
next
  let ?B = "GoString_upto before (Some (transform t name)) gs_init"
  let ?X = "?B\<lparr>ssPre := ssPre ?B @ [name @ ''(''], ssPost := ssPost ?B @ ['')'']\<rparr>"
  have nB: "numIndirect ?B = 0"
    by (rule numIndirect_init_upto) simp
  have "GoString_upto (before @ transform t name # after) None gs_init
          = GoString_upto after None ?X"
    by (simp add: GoString_upto_append)
  then have "GoString (before @ transform t name # after) = joinPrePost (GoString_upto after None ?X)"
    by (simp add: GoString_def GoString_loop_upto)
  also have "\<dots> = concat (rev (ssPre (GoString_loop after gs_init))) @ joinPrePost ?X
             @ concat (ssPost (GoString_loop after gs_init))"
    by (rule GoString_split) (simp add: nB)
  also have "joinPrePost ?X = name @ ''('' @ joinPrePost ?B @ '')''"
    by (simp add: joinPrePost_def)
  finally show "GoString (before @ transform t name # after)
     = concat (rev (ssPre (GoString_loop after gs_init))) @ name @ ''(''
         @ joinPrePost ?B @ '')'' @ concat (ssPost (GoString_loop after gs_init))"
    by simp
next
  let ?B = "GoString_upto before (Some (typeAssertion ty)) gs_init"
  let ?X = "GoString_step (typeAssertion ty) (lookahead after) ?B"
  have X: "?X = (if isTransformNext (lookahead after) then ?B
                 else ?B\<lparr>ssPost := ssPost ?B @ [''.('' @ ty @ '')'']\<rparr>)"
    by (cases "(typeAssertion ty, lookahead after, ?B)" rule: GoString_step.cases) simp_all
  have nB: "numIndirect ?B = 0"
    by (rule numIndirect_init_upto) simp
  have "GoString_upto (before @ typeAssertion ty # after) None gs_init
          = GoString_upto after None ?X"
    by (simp add: GoString_upto_append lookahead_case)
  then have "GoString (before @ typeAssertion ty # after) = joinPrePost (GoString_upto after None ?X)"
    by (simp add: GoString_def GoString_loop_upto)
  also have "\<dots> = concat (rev (ssPre (GoString_loop after gs_init))) @ joinPrePost ?X
             @ concat (ssPost (GoString_loop after gs_init))"
    by (rule GoString_split) (simp add: X nB)
  also have "joinPrePost ?X = joinPrePost ?B
               @ (if isTransformNext (lookahead after) then [] else ''.('' @ ty @ '')'')"
    by (simp add: X joinPrePost_def)
  finally show "GoString (before @ typeAssertion ty # after)
     = concat (rev (ssPre (GoString_loop after gs_init))) @ joinPrePost ?B
         @ (if isTransformNext (lookahead after) then [] else ''.('' @ ty @ '')'')
         @ concat (ssPost (GoString_loop after gs_init))"
    by simp
qed

text \<open>The theorem at \<^verbatim>\<open>f({[]I}[1])[2]\<close> and at \<^verbatim>\<open>{[]I}[1].(T).A\<close>.\<close>

theorem GoString_transform_typeAssertion_witness:
  "GoString ([pathStep ''[]I'', sliceIndex ''I'' 1, typeAssertion ''int'']
              @ transform ''int'' ''f'' # [sliceIndex ''int'' 2]) = ''f({[]I}[1])[2]''
   \<and> GoString ([pathStep ''[]I'', sliceIndex ''I'' 1]
              @ typeAssertion ''T'' # [structField ''int'' ''A'' 0 False]) = ''{[]I}[1].(T).A''"
  using GoString_transform_typeAssertion
          [where t = "''int''" and name = "''f''" and after = "[sliceIndex ''int'' 2]"
             and before = "[pathStep ''[]I'', sliceIndex ''I'' 1, typeAssertion ''int'']"]
        GoString_transform_typeAssertion
          [where ty = "''T''" and after = "[structField ''int'' ''A'' 0 False]"
             and before = "[pathStep ''[]I'', sliceIndex ''I'' 1]"]
  by (simp add: gs_init_def joinPrePost_def pathStep_String_def ContainsAny_def fmt_d_def)

text \<open>
  Claim C6 read literally has the transform wrap what is rendered after it: for a root
  of type \<^verbatim>\<open>[]int\<close>, the transform \<open>f\<close> and index 1 that is
  \<^verbatim>\<open>{[]int}f([1])\<close>. The code renders \<^verbatim>\<open>f({[]int})[1]\<close>.
\<close>

theorem GoString_transform_counterexample:
  "GoString ([pathStep ''[]int''] @ [transform ''int'' ''f''] @ [sliceIndex ''int'' 1])
     \<noteq> transformWraps_spec [pathStep ''[]int''] ''f'' [sliceIndex ''int'' 1]"
  by (simp add: GoString_def transformWraps_spec_def gs_init_def joinPrePost_def
        pathStep_String_def ContainsAny_def fmt_d_def)

subsection \<open>Path.String\<close>

lemma Path_String_loop_acc: "Path_String_loop pa ss = ss @ Path_String_loop pa []"
proof (induction pa arbitrary: ss)
  case Nil
  show ?case by simp
next
  case (Cons s pa)
  show ?case
    using Cons.IH [of "ss @ [String s]"] Cons.IH [of "[String s]"] Cons.IH [of ss]
    by simp
qed

lemma Path_String_loop_tokens: "Path_String_loop pa [] = fieldTokens pa"
proof (induction pa)
  case Nil
  show ?case by simp
next
  case (Cons s pa)
  then show ?case
    using Path_String_loop_acc [of pa "[String s]"]
    by (cases s) simp_all
qed

lemma concat_fieldTokens:
  "concat (fieldTokens pa) = [] \<or> hd (concat (fieldTokens pa)) = CHR ''.''"
  by (induction pa rule: fieldTokens.induct) simp_all

text \<open>
  Claim C7. \<open>Path.String\<close> is the concatenation of the \<open>.Name\<close> tokens of the
  StructField steps of the path, in order, without its first character (the leading
  separator); no other step contributes to \<open>fieldTokens\<close>.
\<close>

theorem Path_String_fields: "Path_String pa = drop 1 (concat (fieldTokens pa))"
proof (cases "concat (fieldTokens pa)")
  case Nil
  then show ?thesis
    by (simp add: Path_String_def TrimPrefix_def Path_String_loop_tokens del: concat_eq_Nil_conv)
next
  case (Cons c cs)
  with concat_fieldTokens [of pa] have "c = CHR ''.''" by simp
  with Cons show ?thesis
    by (simp add: Path_String_def TrimPrefix_def Path_String_loop_tokens)
qed

theorem Path_String_fields_witness:
  "Path_String [pathStep ''T'', structField ''[]U'' ''MySlices'' 0 False, sliceIndex ''U'' 2,
                indirect ''V'', structField ''int'' ''MyField'' 1 False]
     = ''MySlices.MyField''"
  unfolding Path_String_fields by simp

subsection \<open>push and pop\<close>

text \<open>
  Claim C9. For every path \<open>p\<close> and step \<open>s\<close>, \<open>pop\<close> after \<open>push s\<close> does not
  panic and gives back \<open>p\<close>.
\<close>

theorem pop_push: "pop (push p s) = Inr p"
  by (simp add: pop_def push_def)

subsection \<open>The root step\<close>

text \<open>
  Claim C10. The root step renders as \<open>{T}\<close> for the type string \<open>T\<close>, and as
  \<open>root\<close> exactly when \<open>T\<close> is empty or contains \<open>{\<close>, \<open>}\<close> or a newline.
\<close>

theorem pathStep_String_root:
  "String (pathStep t) =
     (if t = [] \<or> CHR ''{'' \<in> set t \<or> CHR ''}'' \<in> set t \<or> CHR 0x0A \<in> set t
      then ''root'' else ''{'' @ t @ ''}'')
   \<and> (String (pathStep t) = ''root'')
       = (t = [] \<or> CHR ''{'' \<in> set t \<or> CHR ''}'' \<in> set t \<or> CHR 0x0A \<in> set t)"
  by (auto simp: pathStep_String_def ContainsAny_def list_ex_iff)

theorem pathStep_String_root_witness:
  "String (pathStep ''[]int'') = ''{[]int}''
   \<and> String (pathStep ''struct { A int }'') = ''root''
   \<and> String (pathStep []) = ''root''"
  using pathStep_String_root [of "''[]int''"] pathStep_String_root [of "''struct { A int }''"]
    pathStep_String_root [of "[]"]
  by simp

subsection \<open>isValid\<close>

lemma isValid_loop_eq:
  "isValid_loop L D rs ok =
     (ok \<and> list_all (\<lambda>(j, c). (j > 0 \<or> \<not> D c) \<and> (c = of_char CHR ''_'' \<or> L c \<or> D c)) rs)"
proof (induction rs arbitrary: ok)
  case Nil
  show ?case by simp
next
  case (Cons x rs)
  obtain j c where x: "x = (j, c)" by (cases x)
  show ?case
    unfolding x isValid_loop.simps Cons.IH list.pred_inject prod.case
    by blast
qed

lemma range_from_ge: "(j', c) \<in> set (range_from j bs) \<Longrightarrow> j \<le> j'"
proof (induction j bs rule: range_from.induct)
  case (1 j bs)
  show ?case
  proof (cases "bs = []")
    case True
    with "1.prems" show ?thesis by (simp add: range_from.simps)
  next
    case False
    from "1.prems" False
    have "(j', c) = (j, fst (DecodeRune bs))
          \<or> (j', c) \<in> set (range_from (j + snd (DecodeRune bs)) (drop (snd (DecodeRune bs)) bs))"
      by (subst (asm) range_from.simps) simp
    then show ?thesis
    proof
      assume "(j', c) = (j, fst (DecodeRune bs))"
      then show ?thesis by simp
    next
      assume "(j', c) \<in> set (range_from (j + snd (DecodeRune bs)) (drop (snd (DecodeRune bs)) bs))"
      from "1.IH" [OF False this] show ?thesis by simp
    qed
  qed
qed

text \<open>The first code point is at offset \<open>j\<close>, every later one beyond it.\<close>

lemma range_from_Cons:
  assumes ne: "bs \<noteq> []"
  shows "\<exists>c rs. range_from j bs = (j, c) # rs \<and> (\<forall>p \<in> set rs. j < fst p)"
proof -
  let ?sz = "snd (DecodeRune bs)"
  let ?rs = "range_from (j + ?sz) (drop ?sz bs)"
  have eq: "range_from j bs = (j, fst (DecodeRune bs)) # ?rs"
    using ne by (subst range_from.simps) simp
  have "j < fst p" if "p \<in> set ?rs" for p
  proof -
    from that have "(fst p, snd p) \<in> set ?rs" by simp
    from range_from_ge [OF this] DecodeRune_size [OF ne] show ?thesis by simp
  qed
  with eq show ?thesis by blast
qed

lemma list_all_positive_offsets:
  "\<forall>p \<in> set rs. 0 < fst p \<Longrightarrow>
     list_all (\<lambda>(j, c). (j > 0 \<or> \<not> D c) \<and> Q c) rs = list_all Q (map snd rs)"
proof (induction rs)
  case Nil
  show ?case by simp
next
  case (Cons x rs)
  obtain j c where x: "x = (j, c)" by (cases x)
  from Cons.prems have "0 < j" and "\<forall>p \<in> set rs. 0 < fst p"
    by (simp_all add: x)
  with Cons.IH show ?case by (simp add: x)
qed

text \<open>
  Claim C8. \<open>isValid\<close> holds of an identifier exactly when it is not empty, is not
  the placeholder \<open>_\<close>, each of its code points is an underscore, a letter or a
  digit, and its first code point is not a digit.
\<close>

theorem isValid_iff:
  "isValid IsLetter IsDigit ident =
     (ident \<noteq> [] \<and> ident \<noteq> ''_''
      \<and> list_all (\<lambda>c. c = of_char CHR ''_'' \<or> IsLetter c \<or> IsDigit c)
           (map snd (range_string ident))
      \<and> (case map snd (range_string ident) of [] \<Rightarrow> True | c # cs \<Rightarrow> \<not> IsDigit c))"
proof (cases "ident = []")
  case True
  then show ?thesis
    by (simp add: isValid_def isValid_loop_eq)
next
  case False
  then have "map of_char ident \<noteq> ([] :: nat list)" by simp
  from range_from_Cons [OF this, of 0]
  obtain c rs where rs: "range_string ident = (0, c) # rs"
    and pos: "\<forall>p \<in> set rs. 0 < fst p"
    unfolding range_string_def by blast
  let ?Q = "\<lambda>c. c = of_char CHR ''_'' \<or> IsLetter c \<or> IsDigit c"
  have tl: "list_all (\<lambda>(j, c). (j > 0 \<or> \<not> IsDigit c) \<and> ?Q c) rs = list_all ?Q (map snd rs)"
    using pos by (rule list_all_positive_offsets)
  have "isValid IsLetter IsDigit ident =
          ((ident \<noteq> [] \<and> ident \<noteq> ''_'') \<and> (\<not> IsDigit c \<and> ?Q c) \<and> list_all ?Q (map snd rs))"
    unfolding isValid_def isValid_loop_eq rs list.pred_inject prod.case tl by simp
  also have "\<dots> = (ident \<noteq> [] \<and> ident \<noteq> ''_'' \<and> list_all ?Q (map snd (range_string ident))
      \<and> (case map snd (range_string ident) of [] \<Rightarrow> True | c # cs \<Rightarrow> \<not> IsDigit c))"
    unfolding rs by (simp del: of_char_Char) blast
  finally show ?thesis .
qed

text \<open>The theorem at \<^verbatim>\<open>ab_1\<close> (valid) and at \<^verbatim>\<open>1ab\<close> (digit first).\<close>

theorem isValid_iff_witness:
  "isValid asciiLetter asciiDigit ''ab_1'' \<and> \<not> isValid asciiLetter asciiDigit ''1ab''"
  unfolding isValid_iff
  by (simp add: range_string_def range_from.simps asciiLetter_def asciiDigit_def)

section \<open>Properties of the comparison engine\<close>

subsection \<open>A report is empty exactly when nothing differs\<close>

lemma block_empty: "(block r = []) = (\<not> isDiffer r)"
  by (cases r) simp

lemma blocks_empty: "(concat (map block rs) = []) = (\<not> list_ex isDiffer rs)"
  by (induction rs) (simp_all add: block_empty)

text \<open>
  Claim C1. For every pair of values, every rule set and every depth bound, \<open>diff\<close>
  returns the empty string exactly when \<open>equal\<close> returns true; the two also abort
  with the same fatal error, and fail to return within the bound, together.
\<close>

theorem diff_empty_iff_equal:
  "(diff n c x y = Some (Inr [])) = (equal n c x y = Some (Inr True))
   \<and> (diff n c x y = Some (Inl e)) = (equal n c x y = Some (Inl e))
   \<and> (diff n c x y = None) = (equal n c x y = None)"
proof (cases "traverse n c x y")
  case None
  then show ?thesis by (simp add: diff_def equal_def)
next
  case (Some r)
  show ?thesis
  proof (cases r)
    case (Inl e')
    with Some show ?thesis by (simp add: diff_def equal_def)
  next
    case (Inr rs)
    with Some show ?thesis by (simp add: diff_def equal_def blocks_empty del: concat_eq_Nil_conv)
  qed
qed

text \<open>The theorem at the records \<open>{A: 1, B: 2, C: 3}\<close> and \<open>{A: 1, B: 2, C: 4}\<close>.\<close>

theorem diff_empty_iff_equal_witness:
  "diff 2 plainCall (recordABC ''3'') (recordABC ''3'') = Some (Inr [])
   \<and> diff 2 plainCall (recordABC ''3'') (recordABC ''4'') \<noteq> Some (Inr [])"
proof -
  have "equal 2 plainCall (recordABC ''3'') (recordABC ''3'') = Some (Inr True)"
    by (simp add: equal_def traverse_def resolve_def plainCall_def structural_def
          recordABC_def eval_nat_numeral)
  moreover have "equal 2 plainCall (recordABC ''3'') (recordABC ''4'') = Some (Inr False)"
    by (simp add: equal_def traverse_def resolve_def plainCall_def structural_def
          recordABC_def eval_nat_numeral)
  ultimately show ?thesis
    using diff_empty_iff_equal [of 2 plainCall "recordABC ''3''" "recordABC ''3''"]
      diff_empty_iff_equal [of 2 plainCall "recordABC ''3''" "recordABC ''4''"]
    by simp
qed

text \<open>The report for the two records is the one block for field \<open>C\<close> that the
  test table of the repository expects.\<close>

lemma diff_recordABC:
  "diff 2 plainCall (recordABC ''3'') (recordABC ''4'')
     = Some (Inr (''root.C:'' @ [CHR 0x0A, CHR 0x09] @ ''-: 3'' @ [CHR 0x0A, CHR 0x09]
                  @ ''+: 4'' @ [CHR 0x0A]))"
  by (simp add: diff_def traverse_def resolve_def plainCall_def structural_def
        recordABC_def eval_nat_numeral push_def GoString_def gs_init_def joinPrePost_def
        pathStep_String_def ContainsAny_def)

subsection \<open>Resolution of rules\<close>

lemma firstScoped_none:
  "\<forall>f \<in> set fs. fst f \<noteq> [] \<longrightarrow> holds c pa x y (fst f) = Inr False
     \<Longrightarrow> firstScoped c pa x y fs = Inr None"
proof (induction fs)
  case Nil
  show ?case by simp
next
  case (Cons f fs)
  obtain sc a where f: "f = (sc, a)" by (cases f)
  show ?case
  proof (cases sc)
    case Nil
    with Cons f show ?thesis by simp
  next
    case (Cons s sc')
    with Cons.prems f have "holds c pa x y (s # sc') = Inr False" by simp
    with Cons.IH Cons.prems f Cons show ?thesis by simp
  qed
qed

lemma bare_iff: "(a \<in> set (bare fs)) = (([], a) \<in> set fs)"
  by (induction fs rule: bare.induct) auto

lemma resolve_unfiltered_aux:
  assumes "flattens [] (rules c) = Inr fs"
    and "\<forall>f \<in> set fs. fst f \<noteq> [] \<longrightarrow> holds c pa x y (fst f) = Inr False"
    and "([], a) \<in> set fs" and "universal a"
  shows "resolve c pa x y = Inl UnfilteredOption"
proof -
  have "firstScoped c pa x y fs = Inr None"
    using assms(2) by (rule firstScoped_none)
  moreover have "list_ex universal (bare fs)"
    using assms(3,4) by (auto simp: list_ex_iff bare_iff)
  ultimately show ?thesis
    using assms(1) by (simp add: resolve_def)
qed


lemma walk_resolve_error:
  "resolve c pa x y = Inl e \<Longrightarrow> walk (Suc n) c vis pa x y = Some (Inl e)"
  by simp

text \<open>
  Claim C3. Let the rule set flatten without an unknown option, let no scoped rule's
  predicate be satisfied at the node, and let \<open>a\<close> be a bare rule of universal
  applicability in it: an \<open>Ignore\<close>, or a \<open>Comparer\<close> or \<open>Transformer\<close> over the
  "any" type. Then the resolver reaches the bare rules and answers with the
  unfiltered-option error, and so does the walk at that node, whatever other rules the
  set holds.
\<close>

theorem unfiltered_option:
  assumes "flattens [] (rules c) = Inr fs"
    and "\<forall>f \<in> set fs. fst f \<noteq> [] \<longrightarrow> holds c pa x y (fst f) = Inr False"
    and "([], a) \<in> set fs" and "universal a"
  shows "resolve c pa x y = Inl UnfilteredOption
         \<and> walk (Suc n) c vis pa x y = Some (Inl UnfilteredOption)"
proof -
  have "resolve c pa x y = Inl UnfilteredOption"
    using assms by (rule resolve_unfiltered_aux)
  then show ?thesis
    by (simp add: walk_resolve_error)
qed

text \<open>The theorem at the integers 1 and 1 under a comparer over \<open>int\<close> followed by a
  bare \<open>Ignore\<close>.\<close>

theorem unfiltered_option_witness:
  "resolve (plainCall\<lparr>rules := [Bare (Comparer ''int'' 1 (\<lambda>x y. x = y)), Bare Ignore]\<rparr>)
     [pathStep ''int''] (Prim ''int'' ''1'') (Prim ''int'' ''1'') = Inl UnfilteredOption
   \<and> walk (Suc 0) (plainCall\<lparr>rules := [Bare (Comparer ''int'' 1 (\<lambda>x y. x = y)), Bare Ignore]\<rparr>)
     [] [pathStep ''int''] (Prim ''int'' ''1'') (Prim ''int'' ''1'') = Some (Inl UnfilteredOption)"
proof -
  let ?c = "plainCall\<lparr>rules := [Bare (Comparer ''int'' 1 (\<lambda>x y. x = y)), Bare Ignore]\<rparr>"
  let ?fs = "[([], Comparer ''int'' 1 (\<lambda>x y. x = y)), ([], Ignore)]"
  have 1: "flattens [] (rules ?c) = Inr ?fs"
    by simp
  have 2: "\<forall>f \<in> set ?fs. fst f \<noteq> []
             \<longrightarrow> holds ?c [pathStep ''int''] (Prim ''int'' ''1'') (Prim ''int'' ''1'') (fst f) = Inr False"
    by simp
  have 3: "([], Ignore) \<in> set ?fs"
    by simp
  have 4: "universal Ignore"
    by simp
  show ?thesis
    using unfiltered_option [OF 1 2 3 4, of 0 "[]"] by simp
qed

lemma sameAction_refl: "sameAction a a"
  by (cases a) simp_all

lemma sameAction_common: "sameAction h a \<Longrightarrow> sameAction h b \<Longrightarrow> sameAction a b"
  by (cases h; cases a; cases b) simp_all

lemma resolve_ambiguous_aux:
  assumes fl: "flattens [] (rules c) = Inr fs"
    and sc: "\<forall>f \<in> set fs. fst f \<noteq> [] \<longrightarrow> holds c pa x y (fst f) = Inr False"
    and nu: "\<not> list_ex universal (bare fs)"
    and a: "([], a) \<in> set fs" "matchesType c (typeOf x) a"
    and b: "([], b) \<in> set fs" "matchesType c (typeOf x) b"
    and ab: "\<not> sameAction a b"
  shows "resolve c pa x y = Inl AmbiguousOptions"
proof -
  let ?cands = "filter (matchesType c (typeOf x)) (bare fs)"
  have fs: "firstScoped c pa x y fs = Inr None"
    using sc by (rule firstScoped_none)
  have ain: "a \<in> set ?cands" and bin: "b \<in> set ?cands"
    using a b by (simp_all add: bare_iff)
  then obtain h tl where cands: "?cands = h # tl"
    by (cases ?cands) auto
  have "\<not> list_all (sameAction h) tl"
  proof
    assume all: "list_all (sameAction h) tl"
    have "sameAction h z" if "z \<in> set ?cands" for z
      using that all sameAction_refl [of h] unfolding cands by (auto simp: list_all_iff)
    with ain bin have "sameAction h a" and "sameAction h b" by blast+
    then have "sameAction a b" by (rule sameAction_common)
    with ab show False ..
  qed
  with fl fs nu cands show ?thesis
    by (simp add: resolve_def)
qed

lemma firstScoped_first:
  assumes "sc \<noteq> []" and "holds c pa x y sc = Inr True"
    and "\<forall>f \<in> set pre. fst f \<noteq> [] \<longrightarrow> holds c pa x y (fst f) = Inr False"
  shows "firstScoped c pa x y (pre @ (sc, a) # post) = Inr (Some a)"
  using assms(3)
proof (induction pre)
  case Nil
  from assms(1) obtain s sc' where "sc = s # sc'" by (cases sc) auto
  with assms(2) show ?case by simp
next
  case (Cons f pre)
  obtain sc' a' where f: "f = (sc', a')" by (cases f)
  show ?case
  proof (cases sc')
    case Nil
    with Cons f show ?thesis by simp
  next
    case (Cons s sc'')
    with Cons.prems f have "holds c pa x y (s # sc'') = Inr False" by simp
    with Cons.IH Cons.prems f Cons show ?thesis by simp
  qed
qed

text \<open>
  Claim C4. First part: when no scoped rule's predicate is satisfied, no bare rule is
  universal, and two bare rules \<open>a\<close> and \<open>b\<close> that prescribe different actions both
  match the node's type, the resolver answers with the ambiguous-option error and the
  walk aborts with it. Second part: when the scoped rule \<open>(sc, w)\<close> is the first whose
  predicate is satisfied, the resolver applies \<open>w\<close>, whatever bare rules come before
  or after it.
\<close>

theorem ambiguous_or_scoped:
  "(flattens [] (rules c) = Inr fs
      \<and> (\<forall>f \<in> set fs. fst f \<noteq> [] \<longrightarrow> holds c pa x y (fst f) = Inr False)
      \<and> \<not> list_ex universal (bare fs)
      \<and> ([], a) \<in> set fs \<and> matchesType c (typeOf x) a
      \<and> ([], b) \<in> set fs \<and> matchesType c (typeOf x) b
      \<and> \<not> sameAction a b
    \<longrightarrow> resolve c pa x y = Inl AmbiguousOptions
        \<and> walk (Suc n) c vis pa x y = Some (Inl AmbiguousOptions))
   \<and> (flattens [] (rules c) = Inr (pre @ (sc, w) # post)
      \<and> sc \<noteq> [] \<and> holds c pa x y sc = Inr True
      \<and> (\<forall>f \<in> set pre. fst f \<noteq> [] \<longrightarrow> holds c pa x y (fst f) = Inr False)
    \<longrightarrow> resolve c pa x y = Inr (Apply w))"
proof (intro conjI impI)
  assume h: "flattens [] (rules c) = Inr fs
      \<and> (\<forall>f \<in> set fs. fst f \<noteq> [] \<longrightarrow> holds c pa x y (fst f) = Inr False)
      \<and> \<not> list_ex universal (bare fs)
      \<and> ([], a) \<in> set fs \<and> matchesType c (typeOf x) a
      \<and> ([], b) \<in> set fs \<and> matchesType c (typeOf x) b
      \<and> \<not> sameAction a b"
  then show r: "resolve c pa x y = Inl AmbiguousOptions"
    by (intro resolve_ambiguous_aux [of c fs pa x y a b]) simp_all
  then show "walk (Suc n) c vis pa x y = Some (Inl AmbiguousOptions)"
    by (simp add: walk_resolve_error)
next
  assume h: "flattens [] (rules c) = Inr (pre @ (sc, w) # post)
      \<and> sc \<noteq> [] \<and> holds c pa x y sc = Inr True
      \<and> (\<forall>f \<in> set pre. fst f \<noteq> [] \<longrightarrow> holds c pa x y (fst f) = Inr False)"
  then have "firstScoped c pa x y (pre @ (sc, w) # post) = Inr (Some w)"
    by (intro firstScoped_first) simp_all
  with h show "resolve c pa x y = Inr (Apply w)"
    by (simp add: resolve_def)
qed

text \<open>The theorem at the integers 1 and 1: a comparer and a transformer over \<open>int\<close>,
  first bare, then behind a path filter that holds everywhere.\<close>

theorem ambiguous_or_scoped_witness:
  "resolve (plainCall\<lparr>rules := [Bare (Comparer ''int'' 1 (\<lambda>x y. True)),
                                  Bare (Transformer ''f'' ''int'' 2 (\<lambda>x. Prim ''float64'' ''1''))]\<rparr>)
     [pathStep ''int''] (Prim ''int'' ''1'') (Prim ''int'' ''1'') = Inl AmbiguousOptions
   \<and> resolve (plainCall\<lparr>rules := [FilterPath (\<lambda>pa. True) (RuleSet [Bare Ignore, Bare Ignore]),
                                  Bare (Comparer ''int'' 1 (\<lambda>x y. True)),
                                  Bare (Transformer ''f'' ''int'' 2 (\<lambda>x. Prim ''float64'' ''1''))]\<rparr>)
     [pathStep ''int''] (Prim ''int'' ''1'') (Prim ''int'' ''1'') = Inr (Apply Ignore)"
proof -
  let ?cmp = "Comparer ''int'' 1 (\<lambda>x y. True)"
  let ?tr = "Transformer ''f'' ''int'' 2 (\<lambda>x. Prim ''float64'' ''1'')"
  let ?c = "plainCall\<lparr>rules := [Bare ?cmp, Bare ?tr]\<rparr>"
  let ?d = "plainCall\<lparr>rules := [FilterPath (\<lambda>pa. True) (RuleSet [Bare Ignore, Bare Ignore]),
                                 Bare ?cmp, Bare ?tr]\<rparr>"
  let ?x = "Prim ''int'' ''1''"
  let ?sc = "[PathPred (\<lambda>pa. True)]"
  have A: "flattens [] (rules ?c) = Inr [([], ?cmp), ([], ?tr)]
      \<and> (\<forall>f \<in> set [([], ?cmp), ([], ?tr)]. fst f \<noteq> []
            \<longrightarrow> holds ?c [pathStep ''int''] ?x ?x (fst f) = Inr False)
      \<and> \<not> list_ex universal (bare [([], ?cmp), ([], ?tr)])
      \<and> ([], ?cmp) \<in> set [([], ?cmp), ([], ?tr)] \<and> matchesType ?c (typeOf ?x) ?cmp
      \<and> ([], ?tr) \<in> set [([], ?cmp), ([], ?tr)] \<and> matchesType ?c (typeOf ?x) ?tr
      \<and> \<not> sameAction ?cmp ?tr"
    by (simp add: anyType_def)
  have B: "flattens [] (rules ?d)
             = Inr ([] @ (?sc, Ignore) # [(?sc, Ignore), ([], ?cmp), ([], ?tr)])
      \<and> ?sc \<noteq> [] \<and> holds ?d [pathStep ''int''] ?x ?x ?sc = Inr True
      \<and> (\<forall>f \<in> set []. fst f \<noteq> [] \<longrightarrow> holds ?d [pathStep ''int''] ?x ?x (fst f) = Inr False)"
    by simp
  have "resolve ?c [pathStep ''int''] ?x ?x = Inl AmbiguousOptions"
    using ambiguous_or_scoped [THEN conjunct1, rule_format, OF A] by simp
  moreover have "resolve ?d [pathStep ''int''] ?x ?x = Inr (Apply Ignore)"
    using ambiguous_or_scoped [THEN conjunct2, rule_format, OF B] by simp
  ultimately show ?thesis by simp
qed


subsection \<open>A value against itself\<close>















subsection \<open>What a true verdict needs\<close>
















subsection \<open>The verdict on a value against itself\<close>




text \<open>A floating-point NaN compared with itself is a differ leaf, at every depth
  from one on.\<close>

lemma equal_NaN:
  "equal (Suc n) plainCall (Prim ''float64'' ''NaN'') (Prim ''float64'' ''NaN'')
     = Some (Inr False)"
  by (simp add: equal_def traverse_def resolve_def plainCall_def structural_def)

end
